theory Spec2Isabelle
  imports Main "HOL-Library.AList"
begin

section \<open>JavaScript values held in the cache\<close>

text \<open>
  Payloads are typed \<^verbatim>\<open>any\<close> in the source: whatever \<^verbatim>\<open>response.json()\<close> or
  \<^verbatim>\<open>JSON.parse\<close> returned, later mutated in place by \<^verbatim>\<open>mergePaginatedData\<close>.
  Strings are byte strings (UTF-8); numbers are restricted to integers; an object is
  the list of its own properties in insertion order.
\<close>

datatype jsval =
    JUndefined
  | JNull
  | JBool bool
  | JNum int
  | JStr string
  | JArr "jsval list"
  | JObj "(string \<times> jsval) list"

text \<open>ToBoolean, as used by \<^verbatim>\<open>data.offset ? ... : null\<close>, \<^verbatim>\<open>&&\<close> and \<^verbatim>\<open>||\<close>.\<close>

fun truthy :: "jsval \<Rightarrow> bool" where
  "truthy JUndefined = False"
| "truthy JNull = False"
| "truthy (JBool b) = b"
| "truthy (JNum n) = (n \<noteq> 0)"
| "truthy (JStr s) = (s \<noteq> [])"
| "truthy (JArr xs) = True"
| "truthy (JObj ps) = True"

text \<open>
  Reading a property \<^verbatim>\<open>v.k\<close> for \<open>k\<close> one of \<^verbatim>\<open>offset\<close>, \<^verbatim>\<open>records\<close>: a TypeError
  (\<open>None\<close>) on \<^verbatim>\<open>null\<close> and \<^verbatim>\<open>undefined\<close>, \<^verbatim>\<open>undefined\<close> on a value without that
  own property.
\<close>

fun get_prop :: "jsval \<Rightarrow> string \<Rightarrow> jsval option" where
  "get_prop JUndefined k = None"
| "get_prop JNull k = None"
| "get_prop (JObj ps) k = Some (case map_of ps k of None \<Rightarrow> JUndefined | Some v \<Rightarrow> v)"
| "get_prop v k = Some JUndefined"

text \<open>
  Assigning a property \<^verbatim>\<open>v.k = x\<close> on an object: in place, or appended when new. The
  program assigns only to payloads in which it has read a truthy \<^verbatim>\<open>offset\<close>, and these
  are objects.
\<close>

fun set_prop :: "string \<Rightarrow> jsval \<Rightarrow> jsval \<Rightarrow> jsval" where
  "set_prop k x (JObj ps) = JObj (AList.update k x ps)"
| "set_prop k x v = v"

subsection \<open>Decimal and hexadecimal digits\<close>

definition digit_char :: "nat \<Rightarrow> char" where
  "digit_char d = char_of (of_char (CHR ''0'') + d :: nat)"

function dec_nat :: "nat \<Rightarrow> string" where
  "dec_nat n = (if n < 10 then [digit_char n] else dec_nat (n div 10) @ [digit_char (n mod 10)])"
  by pat_completeness auto
termination
  by (relation "measure id") auto

declare dec_nat.simps [simp del]

definition dec_int :: "int \<Rightarrow> string" where
  "dec_int i = (if i < 0 then CHR ''-'' # dec_nat (nat (- i)) else dec_nat (nat i))"

subsection \<open>ToString, as applied by \<^verbatim>\<open>String.prototype.concat\<close> and \<^verbatim>\<open>URLSearchParams.set\<close>\<close>

fun join :: "string \<Rightarrow> string list \<Rightarrow> string" where
  "join sep [] = []"
| "join sep [x] = x"
| "join sep (x # y # ys) = x @ sep @ join sep (y # ys)"

fun js_to_string :: "jsval \<Rightarrow> string" where
  "js_to_string JUndefined = ''undefined''"
| "js_to_string JNull = ''null''"
| "js_to_string (JBool b) = (if b then ''true'' else ''false'')"
| "js_to_string (JNum n) = dec_int n"
| "js_to_string (JStr s) = s"
| "js_to_string (JArr xs) =
     join '','' (map (\<lambda>x. if x = JUndefined \<or> x = JNull then [] else js_to_string x) xs)"
| "js_to_string (JObj ps) = ''[object Object]''"

text \<open>
  \<^verbatim>\<open>a.concat(b)\<close>: array concatenation spreads an array argument and appends any other
  value; on a string it is string concatenation; a truthy value of another type has no
  \<^verbatim>\<open>concat\<close> method, and the call is a TypeError (\<open>None\<close>).
\<close>

fun js_concat :: "jsval \<Rightarrow> jsval \<Rightarrow> jsval option" where
  "js_concat (JArr xs) (JArr ys) = Some (JArr (xs @ ys))"
| "js_concat (JArr xs) y = Some (JArr (xs @ [y]))"
| "js_concat (JStr s) y = Some (JStr (s @ js_to_string y))"
| "js_concat x y = None"

subsection \<open>\<^verbatim>\<open>JSON.stringify\<close>\<close>

definition hex_char :: "nat \<Rightarrow> char" where
  "hex_char d = (if d < 10 then digit_char d else char_of (of_char (CHR ''a'') + (d - 10) :: nat))"

definition quote_char :: "char \<Rightarrow> string" where
  "quote_char c =
     (if c = CHR 0x22 then [CHR 0x5C, CHR 0x22]
      else if c = CHR 0x5C then [CHR 0x5C, CHR 0x5C]
      else if c = CHR 0x08 then [CHR 0x5C, CHR ''b'']
      else if c = CHR 0x09 then [CHR 0x5C, CHR ''t'']
      else if c = CHR 0x0A then [CHR 0x5C, CHR ''n'']
      else if c = CHR 0x0C then [CHR 0x5C, CHR ''f'']
      else if c = CHR 0x0D then [CHR 0x5C, CHR ''r'']
      else if (of_char c :: nat) < 32
        then [CHR 0x5C, CHR ''u'', CHR ''0'', CHR ''0'',
              hex_char ((of_char c :: nat) div 16), hex_char ((of_char c :: nat) mod 16)]
      else [c])"

text \<open>
  The text of a value. A property that holds \<^verbatim>\<open>undefined\<close> is left out, an \<^verbatim>\<open>undefined\<close>
  array element is written \<^verbatim>\<open>null\<close>.
\<close>

definition quote_string :: "string \<Rightarrow> string" where
  "quote_string s = CHR 0x22 # concat (map quote_char s) @ [CHR 0x22]"

fun stringify :: "jsval \<Rightarrow> string" where
  "stringify JUndefined = ''null''"
| "stringify JNull = ''null''"
| "stringify (JBool b) = (if b then ''true'' else ''false'')"
| "stringify (JNum n) = dec_int n"
| "stringify (JStr s) = quote_string s"
| "stringify (JArr xs) = CHR ''['' # join '','' (map stringify xs) @ [CHR '']'']"
| "stringify (JObj ps) =
     CHR ''{'' # join '',''
        (map (\<lambda>(k, v). quote_string k @ CHR '':'' # stringify v)
             (filter (\<lambda>(k, v). v \<noteq> JUndefined) ps)) @ [CHR ''}'']"

section \<open>Identifiers: the query string of a cached URL\<close>

text \<open>
  A cache key is the text of an absolute URL, \<^verbatim>\<open>https://api.airtable.com/<path>?<query>\<close>.
  \<^verbatim>\<open>new URL(url).searchParams\<close> parses the text between the first \<^verbatim>\<open>?\<close> and the
  fragment as \<^verbatim>\<open>application/x-www-form-urlencoded\<close>. The keys are taken to be valid
  URLs in serialised form (the program builds every key from a parsed URL), so that
  \<^verbatim>\<open>new URL\<close> neither throws nor rewrites the part before the query.
\<close>

definition url_no_fragment :: "string \<Rightarrow> string" where
  "url_no_fragment u = takeWhile (\<lambda>c. c \<noteq> CHR ''#'') u"

definition url_fragment :: "string \<Rightarrow> string" where
  "url_fragment u = dropWhile (\<lambda>c. c \<noteq> CHR ''#'') u"

definition url_base :: "string \<Rightarrow> string" where
  "url_base u = takeWhile (\<lambda>c. c \<noteq> CHR ''?'') (url_no_fragment u)"

definition url_query :: "string \<Rightarrow> string" where
  "url_query u = drop 1 (dropWhile (\<lambda>c. c \<noteq> CHR ''?'') (url_no_fragment u))"

fun split_on :: "char \<Rightarrow> string \<Rightarrow> string list" where
  "split_on sep [] = [[]]"
| "split_on sep (c # cs) =
     (if c = sep then [] # split_on sep cs
      else (case split_on sep cs of [] \<Rightarrow> [[c]] | w # ws \<Rightarrow> (c # w) # ws))"

definition hex_val :: "char \<Rightarrow> nat option" where
  "hex_val c =
     (let n = (of_char c :: nat) in
      if 48 \<le> n \<and> n \<le> 57 then Some (n - 48)
      else if 65 \<le> n \<and> n \<le> 70 then Some (n - 55)
      else if 97 \<le> n \<and> n \<le> 102 then Some (n - 87)
      else None)"

fun percent_decode :: "string \<Rightarrow> string" where
  "percent_decode (c # h # l # cs) =
     (if c = CHR ''%'' then
        (case (hex_val h, hex_val l) of
           (Some a, Some b) \<Rightarrow> char_of (16 * a + b) # percent_decode cs
         | _ \<Rightarrow> c # percent_decode (h # l # cs))
      else c # percent_decode (h # l # cs))"
| "percent_decode cs = cs"

definition form_decode :: "string \<Rightarrow> string" where
  "form_decode s = percent_decode (map (\<lambda>c. if c = CHR ''+'' then CHR '' '' else c) s)"

definition parse_query :: "string \<Rightarrow> (string \<times> string) list" where
  "parse_query q =
     map (\<lambda>s. (form_decode (takeWhile (\<lambda>c. c \<noteq> CHR ''='') s),
               form_decode (drop 1 (dropWhile (\<lambda>c. c \<noteq> CHR ''='') s))))
         (filter (\<lambda>s. s \<noteq> []) (split_on CHR ''&'' q))"

definition searchParams :: "string \<Rightarrow> (string \<times> string) list" where
  "searchParams u = parse_query (url_query u)"

text \<open>\<^verbatim>\<open>URLSearchParams\<close>: \<^verbatim>\<open>has\<close>, \<^verbatim>\<open>get\<close> (the first value), \<^verbatim>\<open>delete\<close>, \<^verbatim>\<open>set\<close>, \<^verbatim>\<open>toString\<close>.\<close>

definition sp_has :: "(string \<times> string) list \<Rightarrow> string \<Rightarrow> bool" where
  "sp_has ps k = (map_of ps k \<noteq> None)"

definition sp_get :: "(string \<times> string) list \<Rightarrow> string \<Rightarrow> string option" where
  "sp_get ps k = map_of ps k"

definition sp_delete :: "string \<Rightarrow> (string \<times> string) list \<Rightarrow> (string \<times> string) list" where
  "sp_delete k ps = AList.delete k ps"

fun sp_set :: "string \<Rightarrow> string \<Rightarrow> (string \<times> string) list \<Rightarrow> (string \<times> string) list" where
  "sp_set k v [] = [(k, v)]"
| "sp_set k v ((k', v') # ps) =
     (if k' = k then (k, v) # AList.delete k ps else (k', v') # sp_set k v ps)"

definition upper_hex_char :: "nat \<Rightarrow> char" where
  "upper_hex_char d =
     (if d < 10 then digit_char d else char_of (of_char (CHR ''A'') + (d - 10) :: nat))"

definition form_encode_char :: "char \<Rightarrow> string" where
  "form_encode_char c =
     (let n = (of_char c :: nat) in
      if (48 \<le> n \<and> n \<le> 57) \<or> (65 \<le> n \<and> n \<le> 90) \<or> (97 \<le> n \<and> n \<le> 122)
         \<or> c = CHR ''*'' \<or> c = CHR ''-'' \<or> c = CHR ''.'' \<or> c = CHR ''_'' then [c]
      else if c = CHR '' '' then ''+''
      else [CHR ''%'', upper_hex_char (n div 16), upper_hex_char (n mod 16)])"

definition form_encode :: "string \<Rightarrow> string" where
  "form_encode s = concat (map form_encode_char s)"

definition encode_pair :: "string \<times> string \<Rightarrow> string" where
  "encode_pair p = form_encode (fst p) @ CHR ''='' # form_encode (snd p)"

definition sp_toString :: "(string \<times> string) list \<Rightarrow> string" where
  "sp_toString ps = join ''&'' (map encode_pair ps)"

text \<open>The \<^verbatim>\<open>offset\<close> query parameter of an identifier, if it has one.\<close>

definition url_offset :: "string \<Rightarrow> string option" where
  "url_offset u = sp_get (searchParams u) ''offset''"

text \<open>
  \<^verbatim>\<open>const p = new URL(url); p.searchParams.set('offset', v); p.toString()\<close>: setting a
  parameter rewrites the whole query in serialised form.
\<close>

definition url_set_offset :: "string \<Rightarrow> string \<Rightarrow> string" where
  "url_set_offset u v =
     url_base u @ CHR ''?'' # sp_toString (sp_set ''offset'' v (searchParams u)) @ url_fragment u"

section \<open>Program state\<close>

text \<open>
  The module-level objects \<^verbatim>\<open>cache\<close> and \<^verbatim>\<open>timestamps\<close> (site, then URL), in key
  insertion order, the snapshot files \<^verbatim>\<open>public/cache-<site>.js\<close> by site, and the
  trace of the URLs given to \<^verbatim>\<open>fetch\<close>, each recorded by the function that awaits
  the answer.
\<close>

type_synonym store = "(string \<times> jsval) list"

record state =
  cache :: "(string \<times> store) list"
  timestamps :: "(string \<times> (string \<times> int) list) list"
  files :: "(string \<times> string) list"
  fetched :: "string list"

definition REFRESH_INTERVAL :: int where
  "REFRESH_INTERVAL = 15 * 60 * 1000"

definition FORGET_INTERVAL :: int where
  "FORGET_INTERVAL = 7 * 24 * 60 * 60 * 1000"

definition PREFIX :: string where
  "PREFIX = ''export const cache = ''"

definition SUFFIX :: string where
  "SUFFIX = CHR '';'' # CHR 0x0A # ''window.airtableCache = cache;''"

text \<open>
  \<^verbatim>\<open>JSON.stringify(cache[site])\<close> is \<^verbatim>\<open>undefined\<close> when the site has no store, and the
  string concatenation then spells it out. The write is taken to succeed.
\<close>

definition cache_text :: "string \<Rightarrow> state \<Rightarrow> string" where
  "cache_text site st =
     (case map_of (cache st) site of
        None \<Rightarrow> ''undefined''
      | Some entries \<Rightarrow> stringify (JObj entries))"

definition saveCache :: "string \<Rightarrow> state \<Rightarrow> state" where
  "saveCache site st =
     st\<lparr>files := AList.update site (PREFIX @ cache_text site st @ SUFFIX) (files st)\<rparr>"

section \<open>The pagination merger\<close>

text \<open>
  \<^verbatim>\<open>offsetStarts\<close>: the entries whose payload has a truthy \<^verbatim>\<open>offset\<close>, with that
  token as read during the scan. Reading \<^verbatim>\<open>data.offset\<close> of a \<^verbatim>\<open>null\<close> payload throws
  (\<open>None\<close>). \<^verbatim>\<open>offsetEnds\<close>: the entries whose URL has an \<^verbatim>\<open>offset\<close> parameter. Both
  lists hold references to the payload objects; the model names an object by the URL
  it was scanned under and keeps the objects' contents in a separate list \<open>objs\<close>.
\<close>

fun offsetStarts :: "store \<Rightarrow> (string \<times> jsval) list option" where
  "offsetStarts [] = Some []"
| "offsetStarts ((url, data) # rest) =
     (case get_prop data ''offset'' of
        None \<Rightarrow> None
      | Some off \<Rightarrow>
          (case offsetStarts rest of
             None \<Rightarrow> None
           | Some starts \<Rightarrow> Some (if truthy off then (url, off) # starts else starts)))"

definition offsetEnds :: "store \<Rightarrow> (string \<times> string) list" where
  "offsetEnds entries =
     concat (map (\<lambda>(url, data). case url_offset url of None \<Rightarrow> [] | Some off \<Rightarrow> [(url, off)])
                 entries)"

definition find_end :: "(string \<times> string) list \<Rightarrow> jsval \<Rightarrow> (string \<times> string) option" where
  "find_end ends off = List.find (\<lambda>(url, q). JStr q = off) ends"

text \<open>
  The body of a merge: \<^verbatim>\<open>start.data.records\<close> becomes the concatenation, then
  \<^verbatim>\<open>start.data.offset\<close> becomes \<^verbatim>\<open>end.data.offset || undefined\<close>, read after the first
  assignment (\<open>same\<close>: start and end are one object).
\<close>

definition merged_payload :: "jsval \<Rightarrow> jsval \<Rightarrow> jsval \<Rightarrow> bool \<Rightarrow> jsval" where
  "merged_payload sdata edata recs same =
     (let sdata1 = set_prop ''records'' recs sdata;
          edata1 = (if same then sdata1 else edata);
          eoff = (case get_prop edata1 ''offset'' of None \<Rightarrow> JUndefined | Some v \<Rightarrow> v)
      in set_prop ''offset'' (if truthy eoff then eoff else JUndefined) sdata1)"

text \<open>
  The effect on the program state. The start's object has been mutated in place, so the
  store shows the new payload wherever it still holds the object; then
  \<^verbatim>\<open>delete cache[site][end.url]; delete timestamps[site][end.url];
  cache[site][start.url] = start.data; saveCache(site)\<close>. The second \<^verbatim>\<open>delete\<close> throws
  when the site has no timestamp object (\<open>Inl\<close>, with the state left behind).
\<close>

definition apply_merge :: "string \<Rightarrow> string \<Rightarrow> string \<Rightarrow> jsval \<Rightarrow> state \<Rightarrow> state + state" where
  "apply_merge site surl eurl sdata2 st =
     (let st1 = st\<lparr>cache := AList.map_entry site
                   (\<lambda>entries. AList.delete eurl (AList.map_entry surl (\<lambda>_. sdata2) entries))
                   (cache st)\<rparr>
      in (case map_of (timestamps st1) site of
            None \<Rightarrow> Inl st1
          | Some ts \<Rightarrow>
              Inr (saveCache site
                     (st1\<lparr>timestamps := AList.update site (AList.delete eurl ts) (timestamps st1),
                          cache := AList.map_entry site (AList.update surl sdata2)
                                     (cache st1)\<rparr>))))"

text \<open>
  One iteration of the loop over \<^verbatim>\<open>offsetStarts\<close>. \<open>Inr\<close> is an iteration that ran to
  its end (or hit \<^verbatim>\<open>continue\<close>), \<open>Inl\<close> one that threw, with the state it left behind:
  the function is \<^verbatim>\<open>async\<close> and nobody awaits it, so the exception only ends the loop.
\<close>

fun merge_step ::
  "string \<Rightarrow> (string \<times> string) list \<Rightarrow> string \<times> jsval \<Rightarrow> store \<times> state
     \<Rightarrow> (store \<times> state) + (store \<times> state)" where
  "merge_step site ends (surl, soff) (objs, st) =
     (let ls = (objs, st) in
      case find_end ends soff of
        None \<Rightarrow> Inr ls
      | Some (eurl, q) \<Rightarrow>
         (case (map_of objs surl, map_of objs eurl) of
            (Some sdata, Some edata) \<Rightarrow>
              (case get_prop sdata ''records'' of
                 None \<Rightarrow> Inl ls
               | Some srec \<Rightarrow>
                  if \<not> truthy srec then Inr ls
                  else
                   (case get_prop edata ''records'' of
                      None \<Rightarrow> Inl ls
                    | Some erec \<Rightarrow>
                       if \<not> truthy erec then Inr ls
                       else
                        (case js_concat srec erec of
                           None \<Rightarrow> Inl ls
                         | Some recs \<Rightarrow>
                            let sdata2 = merged_payload sdata edata recs (eurl = surl);
                                objs2 = AList.update surl sdata2 objs
                            in (case apply_merge site surl eurl sdata2 st of
                                  Inl st' \<Rightarrow> Inl (objs2, st')
                                | Inr st' \<Rightarrow> Inr (objs2, st')))))
          | _ \<Rightarrow> Inr ls))"

fun merge_loop ::
  "string \<Rightarrow> (string \<times> string) list \<Rightarrow> (string \<times> jsval) list \<Rightarrow> store \<times> state
     \<Rightarrow> store \<times> state" where
  "merge_loop site ends [] ls = ls"
| "merge_loop site ends (start # starts) ls =
     (case merge_step site ends start ls of
        Inl ls' \<Rightarrow> ls'
      | Inr ls' \<Rightarrow> merge_loop site ends starts ls')"

text \<open>
  The whole function, returning the scanned objects as it left them next to the state.
  \<^verbatim>\<open>Object.keys(cache[site])\<close> throws when the site has no store.
\<close>

definition merge_run :: "string \<Rightarrow> state \<Rightarrow> store \<times> state" where
  "merge_run site st =
     (case map_of (cache st) site of
        None \<Rightarrow> ([], st)
      | Some entries \<Rightarrow>
          (case offsetStarts entries of
             None \<Rightarrow> (entries, st)
           | Some starts \<Rightarrow> merge_loop site (offsetEnds entries) starts (entries, st)))"

definition mergePaginatedData :: "string \<Rightarrow> state \<Rightarrow> state" where
  "mergePaginatedData site st = snd (merge_run site st)"

subsection \<open>Matched pairs of a scan\<close>

text \<open>
  The pairs (head URL, fragment URL) that the loop will look at: for each element of
  \<^verbatim>\<open>offsetStarts\<close>, the element of \<^verbatim>\<open>offsetEnds\<close> that \<^verbatim>\<open>find\<close> returns for its token.
  Both lists are fixed before the loop begins, so the pairs do not depend on what the
  loop does.
\<close>

definition pairs_of :: "(string \<times> string) list \<Rightarrow> (string \<times> jsval) list \<Rightarrow> (string \<times> string) list" where
  "pairs_of ends starts =
     concat (map (\<lambda>(surl, soff). case find_end ends soff of
                                   None \<Rightarrow> []
                                 | Some (eurl, q) \<Rightarrow> [(surl, eurl)]) starts)"

definition matched_pairs :: "store \<Rightarrow> (string \<times> string) list" where
  "matched_pairs entries =
     (case offsetStarts entries of
        None \<Rightarrow> []
      | Some starts \<Rightarrow> pairs_of (offsetEnds entries) starts)"

text \<open>An entry whose payload carries a (truthy) \<^verbatim>\<open>records\<close> property.\<close>

definition has_records :: "store \<Rightarrow> string \<Rightarrow> bool" where
  "has_records entries url =
     (case map_of entries url of
        None \<Rightarrow> False
      | Some data \<Rightarrow> (case get_prop data ''records'' of None \<Rightarrow> False | Some r \<Rightarrow> truthy r))"

section \<open>Loading a snapshot\<close>

text \<open>
  \<^verbatim>\<open>String.prototype.lastIndexOf\<close> (\<open>-1\<close> when the character does not occur),
  \<^verbatim>\<open>substring\<close> (both indices clamped to the length, and swapped when the first is the
  larger) and \<^verbatim>\<open>trim\<close> (over the ASCII white space and line terminators).
\<close>

definition lastIndexOf :: "char \<Rightarrow> string \<Rightarrow> int" where
  "lastIndexOf c s =
     (if c \<in> set s then int (length s) - 1 - int (length (takeWhile (\<lambda>x. x \<noteq> c) (rev s)))
      else - 1)"

definition substring :: "int \<Rightarrow> int \<Rightarrow> string \<Rightarrow> string" where
  "substring a b s =
     (let a' = nat (min (max a 0) (int (length s)));
          b' = nat (min (max b 0) (int (length s)))
      in take (max a' b' - min a' b') (drop (min a' b') s))"

definition is_space :: "char \<Rightarrow> bool" where
  "is_space c = (c \<in> set [CHR 0x09, CHR 0x0A, CHR 0x0B, CHR 0x0C, CHR 0x0D, CHR '' ''])"

definition trim :: "string \<Rightarrow> string" where
  "trim s = rev (dropWhile is_space (rev (dropWhile is_space s)))"

definition data_region :: "string \<Rightarrow> string" where
  "data_region fileContent =
     trim (substring (int (length PREFIX)) (lastIndexOf CHR ''}'' fileContent + 1) fileContent)"

text \<open>
  \<^verbatim>\<open>loadCache\<close>. \<^verbatim>\<open>JSON.parse\<close> belongs to the platform and is the parameter \<open>parse\<close>:
  the object the text denotes, as the list of its entries, or \<open>None\<close> where it throws.
  A throw leaves the state as it was (the caller does not await the function).
\<close>

definition loadCache :: "(string \<Rightarrow> store option) \<Rightarrow> int \<Rightarrow> string \<Rightarrow> state \<Rightarrow> state" where
  "loadCache parse now site st =
     (case map_of (files st) site of
        Some fileContent \<Rightarrow>
          (case parse (data_region fileContent) of
             None \<Rightarrow> st
           | Some loadedCache \<Rightarrow>
               st\<lparr>cache := AList.update site loadedCache (cache st),
                   timestamps := AList.update site (map (\<lambda>(url, data). (url, now)) loadedCache)
                                   (timestamps st)\<rparr>)
      | None \<Rightarrow>
          st\<lparr>cache := AList.update site [] (cache st),
              timestamps := AList.update site [] (timestamps st)\<rparr>)"




section \<open>The refresh cycle\<close>

text \<open>
  The upstream API: what \<^verbatim>\<open>fetch(url)\<close> followed by \<^verbatim>\<open>response.json()\<close> gives for a
  URL, \<open>None\<close> when either throws (transport error, body that is not JSON).
\<close>

datatype response = Response (ok: bool) (status: nat) (body: jsval)

type_synonym upstream = "string \<Rightarrow> response option"

text \<open>
  \<^verbatim>\<open>cache[site][url] = data; timestamps[site][url] = Date.now()\<close>. Either assignment
  throws when the site has no object (\<open>Inl\<close>, with the state left behind).
\<close>

definition store_entry :: "string \<Rightarrow> string \<Rightarrow> jsval \<Rightarrow> int \<Rightarrow> state \<Rightarrow> state + state" where
  "store_entry site url data now st =
     (case map_of (cache st) site of
        None \<Rightarrow> Inl st
      | Some entries \<Rightarrow>
          let st1 = st\<lparr>cache := AList.update site (AList.update url data entries) (cache st)\<rparr>
          in (case map_of (timestamps st1) site of
                None \<Rightarrow> Inl st1
              | Some ts \<Rightarrow>
                  Inr (st1\<lparr>timestamps :=
                             AList.update site (AList.update url now ts) (timestamps st1)\<rparr>)))"

text \<open>\<^verbatim>\<open>Object.keys(data).includes('offset')\<close>; \<^verbatim>\<open>Object.keys(null)\<close> throws.\<close>

fun has_offset_key :: "jsval \<Rightarrow> bool option" where
  "has_offset_key JUndefined = None"
| "has_offset_key JNull = None"
| "has_offset_key (JObj ps) = Some (map_of ps ''offset'' \<noteq> None)"
| "has_offset_key v = Some False"

text \<open>
  The \<^verbatim>\<open>while (nextOffset)\<close> loop. The result is \<open>None\<close> when the loop never ends,
  \<open>Some (True, st)\<close> when it ends normally or by \<^verbatim>\<open>break\<close>, \<open>Some (False, st)\<close> when
  an exception ends the function.
\<close>

partial_function (option) walk ::
  "upstream \<Rightarrow> int \<Rightarrow> string \<Rightarrow> string \<Rightarrow> jsval \<Rightarrow> state \<Rightarrow> (bool \<times> state) option" where
  "walk up now url site nextOffset st =
     (if \<not> truthy nextOffset then Some (True, st)
      else
        let paginatedUrl = url_set_offset url (js_to_string nextOffset);
            st0 = st\<lparr>fetched := fetched st @ [paginatedUrl]\<rparr>
        in (case up paginatedUrl of
              None \<Rightarrow> Some (False, st0)
            | Some paginatedResponse \<Rightarrow>
                if ok paginatedResponse then
                  (case store_entry site paginatedUrl (body paginatedResponse) now st0 of
                     Inl st1 \<Rightarrow> Some (False, st1)
                   | Inr st1 \<Rightarrow>
                       (case get_prop (body paginatedResponse) ''offset'' of
                          None \<Rightarrow> Some (False, st1)
                        | Some off \<Rightarrow> walk up now url site off st1))
                else Some (True, st0)))"

declare walk.simps [code]

text \<open>
  The forgetting loop, over the keys the site's store had when the loop began. The
  two \<^verbatim>\<open>delete\<close> statements are applied to the top-level objects, as written.
  A key without a timestamp compares as \<^verbatim>\<open>NaN\<close>; a site without a timestamp object
  throws (\<open>Inl\<close>).
\<close>

fun forget_loop :: "int \<Rightarrow> string \<Rightarrow> string list \<Rightarrow> state \<Rightarrow> state + state" where
  "forget_loop now site [] st = Inr st"
| "forget_loop now site (key # keys) st =
     (case map_of (timestamps st) site of
        None \<Rightarrow> Inl st
      | Some ts \<Rightarrow>
          (case map_of ts key of
             None \<Rightarrow> forget_loop now site keys st
           | Some t \<Rightarrow>
               if now - t > FORGET_INTERVAL then
                 forget_loop now site keys
                   (st\<lparr>cache := AList.delete key (cache st),
                       timestamps := AList.delete key (timestamps st)\<rparr>)
               else forget_loop now site keys st))"

definition forget_and_save :: "int \<Rightarrow> string \<Rightarrow> state \<Rightarrow> state" where
  "forget_and_save now site st =
     (case forget_loop now site
             (case map_of (cache st) site of None \<Rightarrow> [] | Some entries \<Rightarrow> map fst entries) st of
        Inl st' \<Rightarrow> st'
      | Inr st' \<Rightarrow> saveCache site st')"

text \<open>
  \<^verbatim>\<open>refreshCache\<close>, evaluated at one instant \<open>now\<close>. \<open>None\<close> is a cycle that never ends;
  an exception ends the cycle with the state reached.
\<close>

definition refreshCache :: "upstream \<Rightarrow> int \<Rightarrow> string \<Rightarrow> string \<Rightarrow> state \<Rightarrow> state option" where
  "refreshCache up now url site st =
     (if sp_has (searchParams url) ''offset'' then Some st
      else
        let st0 = st\<lparr>fetched := fetched st @ [url]\<rparr>
        in (case up url of
              None \<Rightarrow> Some st0
            | Some r \<Rightarrow>
                (case (if ok r then store_entry site url (body r) now st0 else Inr st0) of
                   Inl st1 \<Rightarrow> Some st1
                 | Inr st1 \<Rightarrow>
                     (case has_offset_key (body r) of
                        None \<Rightarrow> Some st1
                      | Some False \<Rightarrow> Some (forget_and_save now site st1)
                      | Some True \<Rightarrow>
                          (case walk up now url site
                                  (case get_prop (body r) ''offset'' of
                                     None \<Rightarrow> JUndefined | Some v \<Rightarrow> v) st1 of
                             None \<Rightarrow> None
                           | Some (False, st2) \<Rightarrow> Some st2
                           | Some (True, st2) \<Rightarrow>
                               Some (forget_and_save now site
                                       (mergePaginatedData site st2)))))))"

text \<open>
  The older copy of the route has the same cycle without the guard on \<^verbatim>\<open>offset\<close>
  and without the pagination walk.
\<close>

definition refreshCache_old :: "upstream \<Rightarrow> int \<Rightarrow> string \<Rightarrow> string \<Rightarrow> state \<Rightarrow> state" where
  "refreshCache_old up now url site st =
     (let st0 = st\<lparr>fetched := fetched st @ [url]\<rparr>
      in (case up url of
            None \<Rightarrow> st0
          | Some r \<Rightarrow>
              (case (if ok r then store_entry site url (body r) now st0 else Inr st0) of
                 Inl st1 \<Rightarrow> st1
               | Inr st1 \<Rightarrow> forget_and_save now site st1)))"

section \<open>The route handler\<close>

text \<open>
  What the handler reads of a request: the \<^verbatim>\<open>Referer\<close> header, and the path and the
  parsed query of \<^verbatim>\<open>request.nextUrl\<close>.
\<close>

record request =
  referer :: "string option"
  pathname :: string
  query :: "(string \<times> string) list"

record reply =
  code :: nat
  content :: string

text \<open>\<^verbatim>\<open>pageKey?.split("/")[2] || "unknown"\<close>\<close>

definition referer_host :: "string option \<Rightarrow> string" where
  "referer_host pageKey =
     (case pageKey of
        None \<Rightarrow> ''unknown''
      | Some k \<Rightarrow>
          (case drop 2 (split_on CHR ''/'' k) of
             [] \<Rightarrow> ''unknown''
           | h # _ \<Rightarrow> if h = [] then ''unknown'' else h))"

definition site_of :: "request \<Rightarrow> string" where
  "site_of req =
     (case sp_get (query req) ''ref'' of
        None \<Rightarrow> referer_host (referer req)
      | Some r \<Rightarrow> if r = [] then referer_host (referer req) else r)"

definition refresh_of :: "request \<Rightarrow> string" where
  "refresh_of req =
     (case sp_get (sp_delete ''ref'' (query req)) ''refresh'' of
        None \<Rightarrow> ''false''
      | Some v \<Rightarrow> v)"

definition params_of :: "request \<Rightarrow> (string \<times> string) list" where
  "params_of req = sp_delete ''refresh'' (sp_delete ''ref'' (query req))"

text \<open>
  \<^verbatim>\<open>pathname.replace(/^\/app\/|\/$/g, "").split("/").filter(Boolean)\<close>, an empty
  list replaced by \<^verbatim>\<open>[""]\<close>, joined with \<^verbatim>\<open>/\<close>.
\<close>

definition strip_app :: "string \<Rightarrow> string" where
  "strip_app p =
     (let p1 = (if take 5 p = ''/app/'' then drop 5 p else p)
      in if p1 \<noteq> [] \<and> last p1 = CHR ''/'' then butlast p1 else p1)"

definition path_of :: "request \<Rightarrow> string" where
  "path_of req =
     (case filter (\<lambda>s. s \<noteq> []) (split_on CHR ''/'' (strip_app (pathname req))) of
        [] \<Rightarrow> join ''/'' [[]]
      | segs \<Rightarrow> join ''/'' segs)"

definition url_of :: "request \<Rightarrow> string" where
  "url_of req = ''https://api.airtable.com/'' @ path_of req @ CHR ''?'' # sp_toString (params_of req)"

text \<open>\<^verbatim>\<open>cache[referrer]?.[url]\<close>, \<open>None\<close> for \<^verbatim>\<open>undefined\<close>.\<close>

definition cached :: "state \<Rightarrow> string \<Rightarrow> string \<Rightarrow> jsval option" where
  "cached st site url =
     (case map_of (cache st) site of None \<Rightarrow> None | Some entries \<Rightarrow> map_of entries url)"

definition lastUpdated :: "state \<Rightarrow> string \<Rightarrow> string \<Rightarrow> int option" where
  "lastUpdated st site url =
     (case map_of (timestamps st) site of None \<Rightarrow> None | Some ts \<Rightarrow> map_of ts url)"

text \<open>
  The object \<open>data\<close>, known to the store under \<open>url\<close>, as it is after an optional run
  of the merger: the merger mutates payload objects in place, and the handler
  serialises \<open>data\<close> afterwards.
\<close>

definition merge_if_offset :: "request \<Rightarrow> string \<Rightarrow> state \<Rightarrow> store \<times> state" where
  "merge_if_offset req site st =
     (if sp_has (params_of req) ''offset'' then merge_run site st else ([], st))"

definition after_merge :: "store \<Rightarrow> string \<Rightarrow> jsval \<Rightarrow> jsval" where
  "after_merge objs url data = (case map_of objs url of None \<Rightarrow> data | Some d \<Rightarrow> d)"

text \<open>
  The result of the handler: the reply, or \<open>None\<close> when the handler throws; the state
  when it returns; and the identifier of the refresh it started without awaiting it
  (the cycle runs after the handler has returned). On a miss the handler logs
  \<^verbatim>\<open>data.records\<close>, which throws on a \<^verbatim>\<open>null\<close> body.
\<close>

record outcome =
  reply_of :: "reply option"
  state_of :: state
  background :: "string option"

definition GET_hit :: "int \<Rightarrow> request \<Rightarrow> string \<Rightarrow> string \<Rightarrow> jsval \<Rightarrow> state \<Rightarrow> outcome" where
  "GET_hit now req site url data st =
     (case map_of (timestamps st) site of
        None \<Rightarrow> \<lparr>reply_of = None, state_of = st, background = None\<rparr>
      | Some ts \<Rightarrow>
          let stamp = (case map_of ts url of None \<Rightarrow> 0 | Some t \<Rightarrow> t);
              m = merge_if_offset req site st
          in \<lparr>reply_of = Some \<lparr>code = 200, content = stringify (after_merge (fst m) url data)\<rparr>,
              state_of = snd m,
              background = (if now - stamp > REFRESH_INTERVAL then Some url else None)\<rparr>)"

definition GET_miss :: "upstream \<Rightarrow> int \<Rightarrow> request \<Rightarrow> string \<Rightarrow> string \<Rightarrow> state \<Rightarrow> outcome" where
  "GET_miss up now req site url st =
     (let st0 = st\<lparr>fetched := fetched st @ [url]\<rparr>
      in (case up url of
            None \<Rightarrow> \<lparr>reply_of = None, state_of = st0, background = None\<rparr>
          | Some r \<Rightarrow>
              (case (if ok r then store_entry site url (body r) now st0 else Inr st0) of
                 Inl st1 \<Rightarrow> \<lparr>reply_of = None, state_of = st1, background = None\<rparr>
               | Inr st1 \<Rightarrow>
                   (case get_prop (body r) ''records'' of
                      None \<Rightarrow>
                        \<lparr>reply_of = None, state_of = saveCache site st1, background = None\<rparr>
                    | Some _ \<Rightarrow>
                        let m = merge_if_offset req site (saveCache site st1);
                            data = (if ok r then after_merge (fst m) url (body r) else body r)
                        in \<lparr>reply_of = Some \<lparr>code = status r, content = stringify data\<rparr>,
                            state_of = snd m,
                            background = None\<rparr>))))"

definition GET :: "upstream \<Rightarrow> (string \<Rightarrow> store option) \<Rightarrow> int \<Rightarrow> request \<Rightarrow> state \<Rightarrow> outcome" where
  "GET up parse now req st =
     (let site = site_of req;
          refresh = refresh_of req;
          url = url_of req;
          st1 = (if map_of (cache st) site = None then loadCache parse now site st else st)
      in (case cached st1 site url of
            None \<Rightarrow> GET_miss up now req site url st1
          | Some data \<Rightarrow>
              if truthy data \<and> \<not> (refresh = ''true'')
              then GET_hit now req site url data st1
              else GET_miss up now req site url st1))"

section \<open>Example stores\<close>

definition rec :: "string \<Rightarrow> jsval" where
  "rec name = JObj [(''id'', JStr name)]"

definition table_url :: string where
  "table_url = ''https://api.airtable.com/v0/app1/tbl1?''"

definition page_url :: "string \<Rightarrow> string" where
  "page_url token = url_set_offset table_url token"

definition page :: "string list \<Rightarrow> string \<Rightarrow> jsval" where
  "page names token = JObj [(''records'', JArr (map rec names)), (''offset'', JStr token)]"

definition last_page :: "string list \<Rightarrow> jsval" where
  "last_page names = JObj [(''records'', JArr (map rec names))]"

definition site_state :: "string \<Rightarrow> store \<Rightarrow> (string \<times> int) list \<Rightarrow> state" where
  "site_state site entries ts =
     \<lparr>cache = [(site, entries)], timestamps = [(site, ts)], files = [], fetched = []\<rparr>"

text \<open>
  Three pages of one table, in the order in which a refresh cycle stores them: the
  head, the page fetched with token \<open>T1\<close>, the page fetched with token \<open>T2\<close>.
\<close>

definition chain :: state where
  "chain = site_state ''site''
     [(table_url, page [''a''] ''T1''),
      (page_url ''T1'', page [''b''] ''T2''),
      (page_url ''T2'', last_page [''c''])]
     [(table_url, 1), (page_url ''T1'', 2), (page_url ''T2'', 3)]"

text \<open>
  A site with one entry last updated at time \<open>0\<close>, next to a site whose slug is that
  entry's URL (a request can name any site with its \<^verbatim>\<open>ref\<close> parameter).
\<close>

definition old_url :: string where
  "old_url = ''https://api.airtable.com/v0/app1/tbl2?''"

definition aged :: state where
  "aged =
     \<lparr>cache = [(''site'', [(table_url, last_page [''a'']), (old_url, last_page [''z''])]),
               (old_url, [(table_url, last_page [''q''])])],
      timestamps = [(''site'', [(table_url, 0), (old_url, 0)]), (old_url, [(table_url, 0)])],
      files = [], fetched = []\<rparr>"

definition serve :: "(string \<times> response) list \<Rightarrow> upstream" where
  "serve table = map_of table"



text \<open>
  The same three pages with the second page stored first, and a chain whose head has
  a token but no records.
\<close>

definition fragment_first_entries :: store where
  "fragment_first_entries =
     [(page_url ''T1'', page [''b''] ''T2''),
      (table_url, page [''a''] ''T1''),
      (page_url ''T2'', last_page [''c''])]"

definition chain_fragment_first :: state where
  "chain_fragment_first = site_state ''site'' fragment_first_entries
     [(page_url ''T1'', 2), (table_url, 1), (page_url ''T2'', 3)]"

definition bad_head_entries :: store where
  "bad_head_entries =
     [(table_url, JObj [(''offset'', JStr ''T1'')]),
      (page_url ''T1'', page [''b''] ''T2''),
      (page_url ''T2'', last_page [''c''])]"

definition chain_bad_head :: state where
  "chain_bad_head = site_state ''site'' bad_head_entries
     [(table_url, 1), (page_url ''T1'', 2), (page_url ''T2'', 3)]"

text \<open>A head and its one fragment; and the same with a head that has no records.\<close>

definition pair_entries :: store where
  "pair_entries = [(table_url, page [''a''] ''T1''), (page_url ''T1'', last_page [''b''])]"

definition bad_pair_entries :: store where
  "bad_pair_entries =
     [(table_url, JObj [(''offset'', JStr ''T1'')]), (page_url ''T1'', last_page [''b''])]"

definition pair_stamps :: "(string \<times> int) list" where
  "pair_stamps = [(table_url, 1), (page_url ''T1'', 2)]"

text \<open>A request for the table on behalf of the site, with a given \<^verbatim>\<open>refresh\<close> value.\<close>

definition table_request :: "string \<Rightarrow> request" where
  "table_request v =
     \<lparr>referer = None, pathname = ''/app/v0/app1/tbl1'',
      query = [(''ref'', ''site''), (''refresh'', v)]\<rparr>"

definition fresh_state :: state where
  "fresh_state = site_state ''site'' [(table_url, last_page [''a''])] [(table_url, 1)]"

definition no_parse :: "string \<Rightarrow> store option" where
  "no_parse text = None"



section \<open>The merger on a chain of three pages\<close>

text \<open>
  Claim C1. For a matched head and fragment, the merger is to leave the fragment's
  identifier absent from the store and the head holding its own records followed by the
  fragment's. On the three-page chain, in the order a refresh cycle stores it, the
  head absorbs the second page, and then the second page, already deleted, absorbs the
  third and is stored again: after the run the second page's identifier is present
  again, without a timestamp, the third page's records are in no head, and the head's
  token \<open>T2\<close> names a page that is gone.
\<close>

theorem mergePaginatedData_chain_restores_fragment:
  "cached (mergePaginatedData ''site'' chain) ''site'' (page_url ''T1'')
     = Some (JObj [(''records'', JArr [rec ''b'', rec ''c'']), (''offset'', JUndefined)])
   \<and> lastUpdated (mergePaginatedData ''site'' chain) ''site'' (page_url ''T1'') = None
   \<and> cached (mergePaginatedData ''site'' chain) ''site'' table_url
     = Some (page [''a'', ''b''] ''T2'')
   \<and> cached (mergePaginatedData ''site'' chain) ''site'' (page_url ''T2'') = None"
  by code_simp

text \<open>
  The example of the specification, a head with one fragment, is merged as described:
  the head holds both records, has no token left, and the fragment is gone.
\<close>

lemma mergePaginatedData_single_pair:
  "cached (mergePaginatedData ''site'' (site_state ''site'' pair_entries pair_stamps))
     ''site'' table_url
     = Some (JObj [(''records'', JArr [rec ''a'', rec ''b'']), (''offset'', JUndefined)])
   \<and> cached (mergePaginatedData ''site'' (site_state ''site'' pair_entries pair_stamps))
     ''site'' (page_url ''T1'') = None
   \<and> lastUpdated (mergePaginatedData ''site'' (site_state ''site'' pair_entries pair_stamps))
     ''site'' (page_url ''T1'') = None"
  by code_simp

section \<open>The forgetting pass\<close>

text \<open>
  Claim C2. An entry older than \<open>FORGET_INTERVAL\<close> is to be absent from its site's
  store and timestamps after a refresh pass, and no other site is to be affected. The
  pass deletes \<^verbatim>\<open>cache[key]\<close> and \<^verbatim>\<open>timestamps[key]\<close>, not the site's entries: eight
  days after time \<open>0\<close> a refresh of the first entry leaves the old entry and its
  timestamp in place, and removes the other site, whose slug is the old entry's URL.
\<close>

theorem refreshCache_forgets_site_not_entry:
  "(case refreshCache
            (serve [(table_url, Response True 200 (last_page [''b'']))])
            (8 * 24 * 60 * 60 * 1000) table_url ''site'' aged of
      None \<Rightarrow> False
    | Some st \<Rightarrow>
        cached st ''site'' old_url = Some (last_page [''z''])
        \<and> lastUpdated st ''site'' old_url = Some 0
        \<and> cached aged old_url table_url = Some (last_page [''q''])
        \<and> map_of (cache st) old_url = None
        \<and> map_of (timestamps st) old_url = None)"
  by code_simp

section \<open>Refreshing a paginated-fragment identifier\<close>

lemma refreshCache_skips_offset:
  "sp_has (searchParams url) ''offset'' \<Longrightarrow> refreshCache up now url site st = Some st"
  by (simp add: refreshCache_def)

text \<open>
  Claim C4. A refresh of an identifier with an \<^verbatim>\<open>offset\<close> parameter is to fetch
  nothing and change nothing. The route's current \<^verbatim>\<open>refreshCache\<close> returns at once
  (\<open>refreshCache_skips_offset\<close>); the older copy of the route has no such guard: it
  fetches the fragment's URL and overwrites the entry and its timestamp.
\<close>

theorem refreshCache_old_fetches_fragment:
  "fetched (refreshCache_old
              (serve [(page_url ''T1'', Response True 200 (last_page [''x'']))])
              5 (page_url ''T1'') ''site'' chain) = [page_url ''T1'']
   \<and> cached (refreshCache_old
              (serve [(page_url ''T1'', Response True 200 (last_page [''x'']))])
              5 (page_url ''T1'') ''site'' chain) ''site'' (page_url ''T1'')
       = Some (last_page [''x''])
   \<and> lastUpdated (refreshCache_old
              (serve [(page_url ''T1'', Response True 200 (last_page [''x'']))])
              5 (page_url ''T1'') ''site'' chain) ''site'' (page_url ''T1'') = Some 5
   \<and> sp_has (searchParams (page_url ''T1'')) ''offset''"
  by code_simp

section \<open>The snapshot round trip\<close>






















section \<open>What one run of the merger can change\<close>

lemma saveCache_fields [simp]:
  "cache (saveCache s st) = cache st"
  "timestamps (saveCache s st) = timestamps st"
  "fetched (saveCache s st) = fetched st"
  by (simp_all add: saveCache_def)

lemma map_of_map_entry:
  "map_of (AList.map_entry k f al) k' =
     (if k' = k then map_option f (map_of al k) else map_of al k')"
  by (induction al) auto

lemma apply_merge_cases:
  obtains (threw) "map_of (timestamps st) site = None"
      "apply_merge site surl eurl d st =
         Inl (st\<lparr>cache := AList.map_entry site
                   (\<lambda>entries. AList.delete eurl (AList.map_entry surl (\<lambda>_. d) entries))
                   (cache st)\<rparr>)"
  | (saved) ts where "map_of (timestamps st) site = Some ts"
      "apply_merge site surl eurl d st =
         Inr (saveCache site
               (st\<lparr>timestamps := AList.update site (AList.delete eurl ts) (timestamps st),
                   cache := AList.map_entry site
                     (\<lambda>entries. AList.update surl d (AList.delete eurl
                         (AList.map_entry surl (\<lambda>_. d) entries)))
                     (cache st)\<rparr>))"
proof (cases "map_of (timestamps st) site")
  case None
  then show ?thesis using threw by (simp add: apply_merge_def)
next
  case (Some ts)
  have "AList.map_entry site (AList.update surl d)
          (AList.map_entry site
             (\<lambda>entries. AList.delete eurl (AList.map_entry surl (\<lambda>_. d) entries)) c)
        = AList.map_entry site (\<lambda>entries. AList.update surl d (AList.delete eurl
                         (AList.map_entry surl (\<lambda>_. d) entries))) c" for c
    by (induction c) auto
  with Some show ?thesis using saved [of ts] by (simp add: apply_merge_def)
qed

lemma apply_merge_cached_other:
  assumes "apply_merge site surl eurl d st = Inl st' \<or> apply_merge site surl eurl d st = Inr st'"
    and "u \<noteq> surl" "u \<noteq> eurl"
  shows "cached st' site' u = cached st site' u"
  using assms
  by (cases rule: apply_merge_cases [of st site surl eurl d])
     (auto simp: cached_def map_of_map_entry update_conv' delete_conv'
           split: option.splits if_splits)

lemma apply_merge_cached_start:
  assumes "apply_merge site surl eurl d st = Inl st' \<or> apply_merge site surl eurl d st = Inr st'"
    and "surl \<noteq> eurl" "cached st site surl \<noteq> None"
  shows "cached st' site surl = Some d"
  using assms
  by (cases rule: apply_merge_cases [of st site surl eurl d])
     (auto simp: cached_def map_of_map_entry update_conv' delete_conv'
           split: option.splits if_splits)

lemma apply_merge_cached_Some:
  assumes "apply_merge site surl eurl d st = Inl st' \<or> apply_merge site surl eurl d st = Inr st'"
    and "cached st' site u = Some x"
  shows "(u = surl \<and> x = d) \<or> (u \<noteq> surl \<and> cached st site u = Some x)"
  using assms
  by (cases rule: apply_merge_cases [of st site surl eurl d])
     (auto simp: cached_def map_of_map_entry update_conv' delete_conv'
           split: option.splits if_splits)

lemma apply_merge_lastUpdated:
  assumes "apply_merge site surl eurl d st = Inl st' \<or> apply_merge site surl eurl d st = Inr st'"
    and "u \<noteq> eurl"
  shows "lastUpdated st' site' u = lastUpdated st site' u"
  using assms
  by (cases rule: apply_merge_cases [of st site surl eurl d])
     (auto simp: lastUpdated_def update_conv' delete_conv' split: option.splits if_splits)

text \<open>An iteration either leaves everything as it was, or performs one merge.\<close>

lemma merge_step_cases:
  assumes "merge_step site ends (surl, soff) (objs, st) = Inl ls'
           \<or> merge_step site ends (surl, soff) (objs, st) = Inr ls'"
  obtains (skip) "ls' = (objs, st)"
  | (merged) eurl q sdata edata srec erec recs st' where
      "find_end ends soff = Some (eurl, q)"
      "map_of objs surl = Some sdata" "map_of objs eurl = Some edata"
      "get_prop sdata ''records'' = Some srec" "truthy srec"
      "get_prop edata ''records'' = Some erec" "truthy erec"
      "js_concat srec erec = Some recs"
      "apply_merge site surl eurl (merged_payload sdata edata recs (eurl = surl)) st = Inl st'
       \<or> apply_merge site surl eurl (merged_payload sdata edata recs (eurl = surl)) st = Inr st'"
      "ls' = (AList.update surl (merged_payload sdata edata recs (eurl = surl)) objs, st')"
  using assms
  by (auto simp: Let_def split: option.splits prod.splits if_splits sum.splits)

lemma merge_loop_invariant:
  assumes "P ls"
    and "\<And>start ls ls'. start \<in> set starts \<Longrightarrow> P ls \<Longrightarrow>
           merge_step site ends start ls = Inl ls' \<or> merge_step site ends start ls = Inr ls'
           \<Longrightarrow> P ls'"
  shows "P (merge_loop site ends starts ls)"
  using assms
proof (induction starts arbitrary: ls)
  case Nil
  then show ?case by simp
next
  case (Cons start starts)
  have step: "P ls'" if "merge_step site ends start ls = Inl ls'
                         \<or> merge_step site ends start ls = Inr ls'" for ls'
    using Cons.prems(2) [of start ls ls'] Cons.prems(1) that by simp
  show ?case
  proof (cases "merge_step site ends start ls")
    case (Inl ls')
    with step [of ls'] show ?thesis by simp
  next
    case (Inr ls')
    have "P (merge_loop site ends starts ls')"
    proof (rule Cons.IH)
      show "P ls'" using step [of ls'] Inr by simp
    next
      fix s l l'
      assume "s \<in> set starts" "P l"
        "merge_step site ends s l = Inl l' \<or> merge_step site ends s l = Inr l'"
      then show "P l'" using Cons.prems(2) [of s l l'] by simp
    qed
    with Inr show ?thesis by simp
  qed
qed

lemma in_pairs_of:
  "(surl, soff) \<in> set starts \<Longrightarrow> find_end ends soff = Some (eurl, q)
   \<Longrightarrow> (surl, eurl) \<in> set (pairs_of ends starts)"
  by (force simp: pairs_of_def)

lemma get_prop_set_prop_other:
  "k \<noteq> k' \<Longrightarrow> get_prop (set_prop k' x v) k = get_prop v k"
  by (cases v) (simp_all add: update_conv')

lemma get_prop_merged_payload:
  "k \<noteq> ''records'' \<Longrightarrow> k \<noteq> ''offset'' \<Longrightarrow>
   get_prop (merged_payload sdata edata recs same) k = get_prop sdata k"
  by (simp add: merged_payload_def Let_def get_prop_set_prop_other)

lemma merge_run_frame:
  assumes site: "map_of (cache st) site = Some entries"
    and starts: "offsetStarts entries = Some starts"
    and run: "merge_loop site (offsetEnds entries) starts (entries, st) = (objs', st')"
  shows "(\<forall>u. u \<notin> snd ` set (pairs_of (offsetEnds entries) starts) \<longrightarrow>
              lastUpdated st' site u = lastUpdated st site u
              \<and> (cached st site u \<noteq> None \<longrightarrow> cached st' site u \<noteq> None))
         \<and> (\<forall>u x. cached st' site u = Some x \<longrightarrow> map_of objs' u = Some x)
         \<and> (\<forall>u x. map_of objs' u = Some x \<longrightarrow>
               (\<exists>d. map_of entries u = Some d
                  \<and> (\<forall>k. k \<noteq> ''records'' \<and> k \<noteq> ''offset'' \<longrightarrow> get_prop x k = get_prop d k)))"
proof -
  let ?ends = "offsetEnds entries"
  let ?E = "snd ` set (pairs_of ?ends starts)"
  let ?P = "\<lambda>ls. (\<forall>u. u \<notin> ?E \<longrightarrow>
              lastUpdated (snd ls) site u = lastUpdated st site u
              \<and> (cached st site u \<noteq> None \<longrightarrow> cached (snd ls) site u \<noteq> None))
         \<and> (\<forall>u x. cached (snd ls) site u = Some x \<longrightarrow> map_of (fst ls) u = Some x)
         \<and> (\<forall>u x. map_of (fst ls) u = Some x \<longrightarrow>
               (\<exists>d. map_of entries u = Some d
                  \<and> (\<forall>k. k \<noteq> ''records'' \<and> k \<noteq> ''offset'' \<longrightarrow> get_prop x k = get_prop d k)))"
  have init: "?P (entries, st)"
    using site by (simp add: cached_def)
  have "?P (merge_loop site ?ends starts (entries, st))"
  proof (rule merge_loop_invariant [where P = ?P, OF init])
    fix start ls ls'
    assume mem: "start \<in> set starts" and P: "?P ls"
      and step: "merge_step site ?ends start ls = Inl ls' \<or> merge_step site ?ends start ls = Inr ls'"
    obtain surl soff where start: "start = (surl, soff)" by (cases start)
    obtain objs s where ls: "ls = (objs, s)" by (cases ls)
    have Pa: "lastUpdated s site u = lastUpdated st site u" if "u \<notin> ?E" for u
      using P that unfolding ls fst_conv snd_conv by blast
    have Pb: "cached s site u \<noteq> None" if "u \<notin> ?E" "cached st site u \<noteq> None" for u
      using P that unfolding ls fst_conv snd_conv by blast
    have Pc: "map_of objs u = Some x" if "cached s site u = Some x" for u x
      using P that unfolding ls fst_conv snd_conv by blast
    have Pd: "\<exists>d. map_of entries u = Some d
                  \<and> (\<forall>k. k \<noteq> ''records'' \<and> k \<noteq> ''offset'' \<longrightarrow> get_prop x k = get_prop d k)"
      if "map_of objs u = Some x" for u x
      using P that unfolding ls fst_conv snd_conv by blast
    from step show "?P ls'"
      unfolding start ls
    proof (cases rule: merge_step_cases)
      case skip
      show ?thesis
        unfolding skip fst_conv snd_conv using Pa Pb Pc Pd by blast
    next
      case (merged eurl q sdata edata srec erec recs s')
      let ?d = "merged_payload sdata edata recs (eurl = surl)"
      have eE: "eurl \<in> ?E"
        using in_pairs_of [OF mem [unfolded start] merged(1)] by force
      have a: "lastUpdated s' site u = lastUpdated st site u" if "u \<notin> ?E" for u
      proof -
        have "u \<noteq> eurl" using that eE by blast
        then show ?thesis
          using apply_merge_lastUpdated [OF merged(9), of u site] Pa [OF that] by simp
      qed
      have b: "cached s' site u \<noteq> None" if "u \<notin> ?E" "cached st site u \<noteq> None" for u
      proof (cases "u = surl")
        case True
        have "cached s site surl \<noteq> None" using Pb [OF that] True by simp
        moreover have "surl \<noteq> eurl" using that eE True by blast
        ultimately show ?thesis
          using apply_merge_cached_start [OF merged(9)] True by simp
      next
        case False
        moreover have "u \<noteq> eurl" using that eE by blast
        ultimately have "cached s' site u = cached s site u"
          using apply_merge_cached_other [OF merged(9)] by simp
        then show ?thesis using Pb [OF that] by simp
      qed
      have c: "map_of (AList.update surl ?d objs) u = Some x" if "cached s' site u = Some x" for u x
      proof -
        from apply_merge_cached_Some [OF merged(9) that]
        consider "u = surl" "x = ?d" | "u \<noteq> surl" "cached s site u = Some x" by blast
        then show ?thesis
        proof cases
          case 1
          then show ?thesis by (simp add: update_conv')
        next
          case 2
          then show ?thesis using Pc [of u x] by (simp add: update_conv')
        qed
      qed
      have d: "\<exists>d. map_of entries u = Some d
                  \<and> (\<forall>k. k \<noteq> ''records'' \<and> k \<noteq> ''offset'' \<longrightarrow> get_prop x k = get_prop d k)"
        if "map_of (AList.update surl ?d objs) u = Some x" for u x
      proof (cases "u = surl")
        case True
        then have x: "x = ?d" using that by (simp add: update_conv')
        obtain d0 where d0: "map_of entries surl = Some d0"
          "\<forall>k. k \<noteq> ''records'' \<and> k \<noteq> ''offset'' \<longrightarrow> get_prop sdata k = get_prop d0 k"
          using Pd [OF merged(2)] by blast
        show ?thesis
          unfolding x True using d0 by (simp add: get_prop_merged_payload)
      next
        case False
        then have "map_of objs u = Some x" using that by (simp add: update_conv')
        then show ?thesis using Pd by simp
      qed
      show ?thesis
        unfolding merged(10) fst_conv snd_conv using a b c d by blast
    qed
  qed
  then show ?thesis using run by simp
qed

section \<open>The frame of a merge\<close>

text \<open>
  Claim C9, as stated, fails where a head is itself the fragment of another head: with
  the second page stored before the head, the second page first absorbs the third (a
  successful merge, of which it is the head) and is then absorbed by the head, so that
  its identifier and its timestamp are gone after the run.
\<close>

theorem mergePaginatedData_head_consumed:
  "(page_url ''T1'', page_url ''T2'') \<in> set (matched_pairs fragment_first_entries)
   \<and> has_records fragment_first_entries (page_url ''T1'')
   \<and> has_records fragment_first_entries (page_url ''T2'')
   \<and> lastUpdated chain_fragment_first ''site'' (page_url ''T1'') = Some 2
   \<and> lastUpdated (mergePaginatedData ''site'' chain_fragment_first) ''site'' (page_url ''T1'') = None
   \<and> cached (mergePaginatedData ''site'' chain_fragment_first) ''site'' (page_url ''T1'') = None"
  by code_simp

text \<open>
  Claim C9, amended. For every entry that no head of the scan matches as its fragment
  (in particular the head of a merged pair that is not consumed itself), one run of the
  merger leaves the entry's timestamp unchanged, leaves the entry in the store, and
  changes no property of its payload other than \<^verbatim>\<open>records\<close> and \<^verbatim>\<open>offset\<close>. So the
  entries and timestamps that a run removes are those of matched fragments only.
\<close>

theorem mergePaginatedData_frame:
  assumes "map_of (cache st) site = Some entries"
    and "u \<notin> snd ` set (matched_pairs entries)"
  shows "lastUpdated (mergePaginatedData site st) site u = lastUpdated st site u
         \<and> (\<forall>d. cached st site u = Some d \<longrightarrow>
               (\<exists>d'. cached (mergePaginatedData site st) site u = Some d'
                  \<and> (\<forall>k. k \<noteq> ''records'' \<and> k \<noteq> ''offset'' \<longrightarrow> get_prop d' k = get_prop d k)))"
proof (cases "offsetStarts entries")
  case None
  then have "mergePaginatedData site st = st"
    using assms(1) by (simp add: mergePaginatedData_def merge_run_def)
  then show ?thesis by simp
next
  case (Some starts)
  obtain objs' st' where run: "merge_loop site (offsetEnds entries) starts (entries, st) = (objs', st')"
    by (cases "merge_loop site (offsetEnds entries) starts (entries, st)")
  then have m: "mergePaginatedData site st = st'"
    using assms(1) Some by (simp add: mergePaginatedData_def merge_run_def)
  have u: "u \<notin> snd ` set (pairs_of (offsetEnds entries) starts)"
    using assms(2) Some by (simp add: matched_pairs_def)
  note fr = merge_run_frame [OF assms(1) Some run]
  note fr1 = fr [THEN conjunct1, rule_format, OF u]
  note fr2 = fr [THEN conjunct2, THEN conjunct1, rule_format]
  note fr3 = fr [THEN conjunct2, THEN conjunct2, rule_format]
  have ts: "lastUpdated st' site u = lastUpdated st site u"
    using fr1 by (rule conjunct1)
  have "\<exists>d'. cached st' site u = Some d'
            \<and> (\<forall>k. k \<noteq> ''records'' \<and> k \<noteq> ''offset'' \<longrightarrow> get_prop d' k = get_prop d k)"
    if "cached st site u = Some d" for d
  proof -
    have "cached st' site u \<noteq> None" using fr1 [THEN conjunct2] that by simp
    then obtain d' where d': "cached st' site u = Some d'" by blast
    have "map_of objs' u = Some d'" using fr2 [OF d'] .
    from fr3 [OF this] obtain d0 where d0: "map_of entries u = Some d0"
      "\<forall>k. k \<noteq> ''records'' \<and> k \<noteq> ''offset'' \<longrightarrow> get_prop d' k = get_prop d0 k"
      by blast
    have "map_of entries u = Some d" using that assms(1) by (simp add: cached_def)
    with d0 have "\<forall>k. k \<noteq> ''records'' \<and> k \<noteq> ''offset'' \<longrightarrow> get_prop d' k = get_prop d k"
      by simp
    with d' show ?thesis by blast
  qed
  then show ?thesis unfolding m using ts by blast
qed

theorem mergePaginatedData_frame_witness:
  "map_of (cache (site_state ''site'' pair_entries pair_stamps)) ''site'' = Some pair_entries
   \<and> (table_url, page_url ''T1'') \<in> set (matched_pairs pair_entries)
   \<and> table_url \<notin> snd ` set (matched_pairs pair_entries)
   \<and> lastUpdated (mergePaginatedData ''site'' (site_state ''site'' pair_entries pair_stamps))
        ''site'' table_url = Some 1
   \<and> cached (mergePaginatedData ''site'' (site_state ''site'' pair_entries pair_stamps))
        ''site'' table_url \<noteq> None"
proof -
  have h1: "map_of (cache (site_state ''site'' pair_entries pair_stamps)) ''site'' = Some pair_entries"
    by (simp add: site_state_def)
  have h2: "table_url \<notin> snd ` set (matched_pairs pair_entries)"
    by code_simp
  have h3: "(table_url, page_url ''T1'') \<in> set (matched_pairs pair_entries)"
    by code_simp
  have h4: "lastUpdated (site_state ''site'' pair_entries pair_stamps) ''site'' table_url = Some 1"
    by code_simp
  have h5: "cached (site_state ''site'' pair_entries pair_stamps) ''site'' table_url
              = Some (page [''a''] ''T1'')"
    by code_simp
  note frame = mergePaginatedData_frame [OF h1 h2]
  have h6: "lastUpdated (mergePaginatedData ''site'' (site_state ''site'' pair_entries pair_stamps))
              ''site'' table_url = Some 1"
    using frame [THEN conjunct1] h4 by simp
  have h7: "cached (mergePaginatedData ''site'' (site_state ''site'' pair_entries pair_stamps))
              ''site'' table_url \<noteq> None"
    using frame [THEN conjunct2, rule_format, OF h5] by blast
  show ?thesis
    by (intro conjI h1 h2 h3 h6 h7)
qed

section \<open>Pairs that are not merged\<close>

text \<open>
  Claim C7, as stated, fails where an entry of a malformed pair belongs to another
  matched pair: the head has a token and no records, so its pair with the second page
  is skipped, but the second page is also the head of the third page and absorbs it,
  and its payload is not as it was.
\<close>

theorem mergePaginatedData_malformed_head_chain:
  "(table_url, page_url ''T1'') \<in> set (matched_pairs bad_head_entries)
   \<and> \<not> has_records bad_head_entries table_url
   \<and> cached chain_bad_head ''site'' (page_url ''T1'') = Some (page [''b''] ''T2'')
   \<and> cached (mergePaginatedData ''site'' chain_bad_head) ''site'' (page_url ''T1'')
       = Some (JObj [(''records'', JArr [rec ''b'', rec ''c'']), (''offset'', JUndefined)])"
  by code_simp

text \<open>
  Claim C7, amended. For a matched head and fragment of which one has no records, and
  neither of which belongs to another matched pair of the scan, one run of the merger
  leaves both entries in the store with the payloads and the timestamps they had.
\<close>

theorem mergePaginatedData_skips_malformed:
  assumes site: "map_of (cache st) site = Some entries"
    and pair: "(H, F) \<in> set (matched_pairs entries)"
    and others: "\<forall>(s, e) \<in> set (matched_pairs entries).
                   (s, e) = (H, F) \<or> (s \<notin> {H, F} \<and> e \<notin> {H, F})"
    and bad: "\<not> has_records entries H \<or> \<not> has_records entries F"
  shows "cached (mergePaginatedData site st) site H = cached st site H
         \<and> cached (mergePaginatedData site st) site F = cached st site F
         \<and> lastUpdated (mergePaginatedData site st) site H = lastUpdated st site H
         \<and> lastUpdated (mergePaginatedData site st) site F = lastUpdated st site F"
proof (cases "offsetStarts entries")
  case None
  then have "mergePaginatedData site st = st"
    using site by (simp add: mergePaginatedData_def merge_run_def)
  then show ?thesis by simp
next
  case (Some starts)
  let ?ends = "offsetEnds entries"
  let ?P = "\<lambda>ls. map_of (fst ls) H = map_of entries H \<and> map_of (fst ls) F = map_of entries F
        \<and> cached (snd ls) site H = cached st site H \<and> cached (snd ls) site F = cached st site F
        \<and> lastUpdated (snd ls) site H = lastUpdated st site H
        \<and> lastUpdated (snd ls) site F = lastUpdated st site F"
  have pairs: "matched_pairs entries = pairs_of ?ends starts"
    using Some by (simp add: matched_pairs_def)
  have "?P (merge_loop site ?ends starts (entries, st))"
  proof (rule merge_loop_invariant [where P = ?P])
    show "?P (entries, st)" by simp
  next
    fix start ls ls'
    assume mem: "start \<in> set starts" and P: "?P ls"
      and step: "merge_step site ?ends start ls = Inl ls' \<or> merge_step site ?ends start ls = Inr ls'"
    obtain surl soff where start: "start = (surl, soff)" by (cases start)
    obtain objs s where ls: "ls = (objs, s)" by (cases ls)
    note P' = P [unfolded ls fst_conv snd_conv]
    from step show "?P ls'"
      unfolding start ls
    proof (cases rule: merge_step_cases)
      case skip
      show ?thesis unfolding skip fst_conv snd_conv using P' .
    next
      case (merged eurl q sdata edata srec erec recs s')
      have "(surl, eurl) \<in> set (matched_pairs entries)"
        unfolding pairs using in_pairs_of [OF mem [unfolded start] merged(1)] .
      from bspec [OF others this]
      have "(surl, eurl) = (H, F) \<or> (surl \<notin> {H, F} \<and> eurl \<notin> {H, F})"
        by simp
      then show ?thesis
      proof
        assume "(surl, eurl) = (H, F)"
        then have "map_of entries H = Some sdata" "map_of entries F = Some edata"
          using merged(2,3) P' by simp_all
        then have "has_records entries H" "has_records entries F"
          using merged(4-7) by (simp_all add: has_records_def)
        with bad show ?thesis by simp
      next
        assume d: "surl \<notin> {H, F} \<and> eurl \<notin> {H, F}"
        then have ne: "H \<noteq> surl" "H \<noteq> eurl" "F \<noteq> surl" "F \<noteq> eurl" by auto
        have "map_of (AList.update surl (merged_payload sdata edata recs (eurl = surl)) objs) H
                = map_of objs H"
             "map_of (AList.update surl (merged_payload sdata edata recs (eurl = surl)) objs) F
                = map_of objs F"
          using ne by (simp_all add: update_conv')
        moreover have "cached s' site H = cached s site H" "cached s' site F = cached s site F"
          using apply_merge_cached_other [OF merged(9)] ne by simp_all
        moreover have "lastUpdated s' site H = lastUpdated s site H"
          "lastUpdated s' site F = lastUpdated s site F"
          using apply_merge_lastUpdated [OF merged(9)] ne by simp_all
        ultimately show ?thesis
          unfolding merged(10) fst_conv snd_conv using P' by simp
      qed
    qed
  qed
  moreover have "mergePaginatedData site st = snd (merge_loop site ?ends starts (entries, st))"
    using site Some by (simp add: mergePaginatedData_def merge_run_def)
  ultimately show ?thesis by simp
qed

theorem mergePaginatedData_skips_malformed_witness:
  "map_of (cache (site_state ''site'' bad_pair_entries pair_stamps)) ''site'' = Some bad_pair_entries
   \<and> (table_url, page_url ''T1'') \<in> set (matched_pairs bad_pair_entries)
   \<and> \<not> has_records bad_pair_entries table_url
   \<and> cached (mergePaginatedData ''site'' (site_state ''site'' bad_pair_entries pair_stamps))
        ''site'' table_url = Some (JObj [(''offset'', JStr ''T1'')])
   \<and> cached (mergePaginatedData ''site'' (site_state ''site'' bad_pair_entries pair_stamps))
        ''site'' (page_url ''T1'') = Some (last_page [''b''])
   \<and> lastUpdated (mergePaginatedData ''site'' (site_state ''site'' bad_pair_entries pair_stamps))
        ''site'' table_url = Some 1
   \<and> lastUpdated (mergePaginatedData ''site'' (site_state ''site'' bad_pair_entries pair_stamps))
        ''site'' (page_url ''T1'') = Some 2"
proof -
  let ?st = "site_state ''site'' bad_pair_entries pair_stamps"
  have h1: "map_of (cache ?st) ''site'' = Some bad_pair_entries"
    by (simp add: site_state_def)
  have h2: "(table_url, page_url ''T1'') \<in> set (matched_pairs bad_pair_entries)"
    by code_simp
  have h3: "\<forall>(s, e) \<in> set (matched_pairs bad_pair_entries).
              (s, e) = (table_url, page_url ''T1'')
              \<or> (s \<notin> {table_url, page_url ''T1''} \<and> e \<notin> {table_url, page_url ''T1''})"
    by code_simp
  have h4: "\<not> has_records bad_pair_entries table_url"
    by code_simp
  have h5: "cached ?st ''site'' table_url = Some (JObj [(''offset'', JStr ''T1'')])"
    "cached ?st ''site'' (page_url ''T1'') = Some (last_page [''b''])"
    "lastUpdated ?st ''site'' table_url = Some 1"
    "lastUpdated ?st ''site'' (page_url ''T1'') = Some 2"
    by code_simp+
  note kept = mergePaginatedData_skips_malformed [OF h1 h2 h3 disjI1 [OF h4]]
  show ?thesis
    using kept h1 h2 h4 unfolding h5 by (intro conjI) simp_all
qed

section \<open>The route handler: cache hits, misses and forced refreshes\<close>

lemma apply_merge_fetched:
  assumes "apply_merge site surl eurl d st = Inl st' \<or> apply_merge site surl eurl d st = Inr st'"
  shows "fetched st' = fetched st"
  using assms by (cases rule: apply_merge_cases [of st site surl eurl d]) auto

lemma merge_run_fetched: "fetched (snd (merge_run site st)) = fetched st"
proof (cases "map_of (cache st) site")
  case None
  then show ?thesis by (simp add: merge_run_def)
next
  case (Some entries)
  show ?thesis
  proof (cases "offsetStarts entries")
    case None
    with Some show ?thesis by (simp add: merge_run_def)
  next
    case starts: (Some starts)
    have "fetched (snd (merge_loop site (offsetEnds entries) starts (entries, st))) = fetched st"
    proof (rule merge_loop_invariant [where P = "\<lambda>ls. fetched (snd ls) = fetched st"])
      show "fetched (snd (entries, st)) = fetched st" by simp
    next
      fix start ls ls'
      assume P: "fetched (snd ls) = fetched st"
        and step: "merge_step site (offsetEnds entries) start ls = Inl ls'
                   \<or> merge_step site (offsetEnds entries) start ls = Inr ls'"
      obtain surl soff where start: "start = (surl, soff)" by (cases start)
      obtain objs s where ls: "ls = (objs, s)" by (cases ls)
      from step show "fetched (snd ls') = fetched st"
        unfolding start ls
      proof (cases rule: merge_step_cases)
        case skip
        then show ?thesis using P ls by simp
      next
        case (merged eurl q sdata edata srec erec recs s')
        then show ?thesis using apply_merge_fetched [OF merged(9)] P ls by simp
      qed
    qed
    with Some starts show ?thesis by (simp add: merge_run_def)
  qed
qed

lemma merge_if_offset_fetched: "fetched (snd (merge_if_offset req site st)) = fetched st"
  by (simp add: merge_if_offset_def merge_run_fetched)

lemma refresh_of_eq: "refresh_of req = (case sp_get (query req) ''refresh'' of None \<Rightarrow> ''false'' | Some v \<Rightarrow> v)"
  by (simp add: refresh_of_def sp_get_def sp_delete_def delete_conv')







text \<open>
  Claim C10. With a cached entry for the identifier (one the handler's own test
  \<^verbatim>\<open>cache[referrer]?.[url]\<close> accepts), any value of the \<^verbatim>\<open>refresh\<close> parameter other
  than the exact string \<^verbatim>\<open>true\<close>, or no value, takes the cache-hit path: the handler
  waits for no fetch and answers 200 with the cached payload (serialised after the
  merger has run, when the request carries an \<^verbatim>\<open>offset\<close>). A stale entry also starts
  the background refresh, which the outcome reports and which fetches later.
\<close>

theorem GET_only_true_bypasses:
  assumes "cached st (site_of req) (url_of req) = Some data" and "truthy data"
    and "map_of (timestamps st) (site_of req) \<noteq> None"
    and "sp_get (query req) ''refresh'' \<noteq> Some ''true''"
  shows "GET up parse now req st = GET_hit now req (site_of req) (url_of req) data st
         \<and> fetched (state_of (GET up parse now req st)) = fetched st
         \<and> (\<exists>text. reply_of (GET up parse now req st) = Some \<lparr>code = 200, content = text\<rparr>)
         \<and> (\<not> sp_has (params_of req) ''offset'' \<longrightarrow>
               reply_of (GET up parse now req st) = Some \<lparr>code = 200, content = stringify data\<rparr>
               \<and> state_of (GET up parse now req st) = st)"
proof -
  obtain entries where site: "map_of (cache st) (site_of req) = Some entries"
    using assms(1) by (auto simp: cached_def split: option.splits)
  have no: "refresh_of req \<noteq> ''true''"
    using assms(4) by (auto simp: refresh_of_eq split: option.splits)
  have hit: "GET up parse now req st = GET_hit now req (site_of req) (url_of req) data st"
    using site no assms(1,2) by (simp add: GET_def Let_def)
  obtain ts where ts: "map_of (timestamps st) (site_of req) = Some ts"
    using assms(3) by blast
  show ?thesis
    unfolding hit using ts
    by (simp add: GET_hit_def Let_def merge_if_offset_fetched)
       (simp add: merge_if_offset_def after_merge_def)
qed

theorem GET_only_true_bypasses_witness:
  "cached fresh_state (site_of (table_request ''TRUE'')) (url_of (table_request ''TRUE''))
     = Some (last_page [''a''])
   \<and> truthy (last_page [''a''])
   \<and> map_of (timestamps fresh_state) (site_of (table_request ''TRUE'')) \<noteq> None
   \<and> sp_get (query (table_request ''TRUE'')) ''refresh'' \<noteq> Some ''true''
   \<and> reply_of (GET (serve []) no_parse 5 (table_request ''TRUE'') fresh_state)
       = Some \<lparr>code = 200, content = stringify (last_page [''a''])\<rparr>
   \<and> state_of (GET (serve []) no_parse 5 (table_request ''TRUE'') fresh_state) = fresh_state"
proof -
  have h1: "cached fresh_state (site_of (table_request ''TRUE'')) (url_of (table_request ''TRUE''))
              = Some (last_page [''a''])"
    by code_simp
  have h2: "truthy (last_page [''a''])"
    by code_simp
  have h3: "map_of (timestamps fresh_state) (site_of (table_request ''TRUE'')) \<noteq> None"
    by code_simp
  have h4: "sp_get (query (table_request ''TRUE'')) ''refresh'' \<noteq> Some ''true''"
    by code_simp
  have h5: "\<not> sp_has (params_of (table_request ''TRUE'')) ''offset''"
    by code_simp
  note hit = GET_only_true_bypasses [OF h1 h2 h3 h4, of "serve []" no_parse 5]
  from hit h5 have
    "reply_of (GET (serve []) no_parse 5 (table_request ''TRUE'') fresh_state)
       = Some \<lparr>code = 200, content = stringify (last_page [''a''])\<rparr>
     \<and> state_of (GET (serve []) no_parse 5 (table_request ''TRUE'') fresh_state) = fresh_state"
    by blast
  with h1 h2 h3 h4 show ?thesis by blast
qed

section \<open>A paginated URL is never the URL it was made from\<close>

lemma of_char_upper_hex:
  "d < 16 \<Longrightarrow> (of_char (upper_hex_char d) :: nat) \<in> {48..57} \<union> {65..70}"
  by (auto simp: upper_hex_char_def digit_char_def)

lemma form_encode_char_plain:
  assumes "c \<in> set (form_encode_char x)"
  shows "c \<noteq> CHR ''&'' \<and> c \<noteq> CHR ''='' \<and> c \<noteq> CHR ''#''"
proof -
  let ?n = "of_char x :: nat"
  have "?n < 256"
    by (metis of_char_mod_256 mod_less_divisor zero_less_numeral)
  then have lt: "?n div 16 < 16" "?n mod 16 < 16"
    by (simp_all add: less_mult_imp_div_less)
  consider "c = x" "(48 \<le> ?n \<and> ?n \<le> 57) \<or> (65 \<le> ?n \<and> ?n \<le> 90) \<or> (97 \<le> ?n \<and> ?n \<le> 122)
         \<or> x = CHR ''*'' \<or> x = CHR ''-'' \<or> x = CHR ''.'' \<or> x = CHR ''_''"
    | "c = CHR ''+''" | "c = CHR ''%''"
    | "c = upper_hex_char (?n div 16)" | "c = upper_hex_char (?n mod 16)"
    using assms by (auto simp: form_encode_char_def Let_def split: if_splits)
  then show ?thesis
  proof cases
    case 1
    then show ?thesis by auto
  next
    case 4
    with of_char_upper_hex [OF lt(1)] show ?thesis by auto
  next
    case 5
    with of_char_upper_hex [OF lt(2)] show ?thesis by auto
  qed simp_all
qed

lemma form_encode_plain:
  "c \<in> set (form_encode s) \<Longrightarrow> c \<noteq> CHR ''&'' \<and> c \<noteq> CHR ''='' \<and> c \<noteq> CHR ''#''"
  using form_encode_char_plain by (fastforce simp: form_encode_def)

lemma split_on_plain: "sep \<notin> set w \<Longrightarrow> split_on sep w = [w]"
  by (induction w) auto

lemma split_on_append:
  "sep \<notin> set w \<Longrightarrow> split_on sep (w @ sep # rest) = w # split_on sep rest"
  by (induction w) auto

lemma split_on_join:
  assumes "ws \<noteq> []" and "\<forall>w \<in> set ws. sep \<notin> set w"
  shows "split_on sep (join [sep] ws) = ws"
  using assms
proof (induction "[sep]" ws rule: join.induct)
  case 1
  then show ?case by simp
next
  case (2 x)
  then show ?case by (simp add: split_on_plain)
next
  case (3 x y ys)
  then show ?case by (simp add: split_on_append)
qed

lemma sp_toString_eq: "sp_toString ps = join ''&'' (map encode_pair ps)"
  by (simp add: sp_toString_def)

lemma encode_pair_no_amp: "CHR ''&'' \<notin> set (encode_pair p)"
  using form_encode_plain by (auto simp: encode_pair_def)

lemma sp_toString_no_hash: "CHR ''#'' \<notin> set (sp_toString ps)"
proof -
  have "CHR ''#'' \<notin> set (join ''&'' ws)" if "\<forall>w \<in> set ws. CHR ''#'' \<notin> set w" for ws
    using that by (induction "''&''" ws rule: join.induct) auto
  moreover have "\<forall>w \<in> set (map encode_pair ps). CHR ''#'' \<notin> set w"
    using form_encode_plain by (auto simp: encode_pair_def)
  ultimately show ?thesis unfolding sp_toString_eq by blast
qed

lemma parse_query_sp_toString:
  assumes "ps \<noteq> []"
  shows "parse_query (sp_toString ps)
           = map (\<lambda>p. (form_decode (form_encode (fst p)), form_decode (form_encode (snd p)))) ps"
proof -
  have "split_on CHR ''&'' (sp_toString ps) = map encode_pair ps"
    unfolding sp_toString_eq using assms encode_pair_no_amp
    by (intro split_on_join) auto
  moreover have "filter (\<lambda>s. s \<noteq> []) (map encode_pair ps) = map encode_pair ps"
    by (induction ps) (auto simp: encode_pair_def)
  moreover have "takeWhile (\<lambda>c. c \<noteq> CHR ''='') (encode_pair p) = form_encode (fst p)"
      "drop 1 (dropWhile (\<lambda>c. c \<noteq> CHR ''='') (encode_pair p)) = form_encode (snd p)" for p
    using form_encode_plain [of _ "fst p"]
    by (auto simp: encode_pair_def takeWhile_append dropWhile_append)
  ultimately show ?thesis
    by (simp add: parse_query_def)
qed

lemma sp_set_mem: "(k, v) \<in> set (sp_set k v ps)"
  by (induction ps) auto

lemma url_query_set_offset:
  "url_query (url_set_offset u v) = sp_toString (sp_set ''offset'' v (searchParams u))"
proof -
  let ?Q = "sp_toString (sp_set ''offset'' v (searchParams u))"
  have base: "CHR ''#'' \<notin> set (url_base u)" "CHR ''?'' \<notin> set (url_base u)"
    by (auto simp: url_base_def url_no_fragment_def dest: set_takeWhileD)
  have frag: "url_fragment u = [] \<or> hd (url_fragment u) = CHR ''#''"
    using hd_dropWhile [of "\<lambda>c. c \<noteq> CHR ''#''" u] by (auto simp: url_fragment_def)
  have "takeWhile (\<lambda>c. c \<noteq> CHR ''#'') ((url_base u @ CHR ''?'' # ?Q) @ url_fragment u)
          = url_base u @ CHR ''?'' # ?Q"
    using base(1) sp_toString_no_hash [of "sp_set ''offset'' v (searchParams u)"] frag
    by (cases "url_fragment u") (auto simp: takeWhile_append)
  then have "url_no_fragment (url_set_offset u v) = url_base u @ CHR ''?'' # ?Q"
    by (simp add: url_no_fragment_def url_set_offset_def)
  then show ?thesis
    using base(2) by (simp add: url_query_def dropWhile_append)
qed

lemma url_set_offset_has_offset: "sp_has (searchParams (url_set_offset u v)) ''offset''"
proof -
  let ?ps = "sp_set ''offset'' v (searchParams u)"
  have ne: "?ps \<noteq> []" using sp_set_mem [of "''offset''" v "searchParams u"] by auto
  have key: "form_decode (form_encode ''offset'') = ''offset''"
    by code_simp
  have "(''offset'', form_decode (form_encode v))
          \<in> set (map (\<lambda>p. (form_decode (form_encode (fst p)), form_decode (form_encode (snd p)))) ?ps)"
    using sp_set_mem [of "''offset''" v "searchParams u"] key by force
  then have "''offset'' \<in> fst ` set (parse_query (sp_toString ?ps))"
    unfolding parse_query_sp_toString [OF ne] by force
  then show ?thesis
    by (simp add: sp_has_def searchParams_def url_query_set_offset map_of_eq_None_iff)
qed

lemma url_set_offset_neq:
  "\<not> sp_has (searchParams url) ''offset'' \<Longrightarrow> url_set_offset url v \<noteq> url"
  using url_set_offset_has_offset [of url v] by auto

section \<open>A refresh cycle whose fetches fail\<close>








end
